theory Spec2Isabelle
  imports Main
begin

section \<open>Ceylon Bank RSA: a shallow embedding of \<^verbatim>\<open>ceylon_bank_rsa.py\<close>\<close>

text \<open>
  The module has four functions that compute something: \<^verbatim>\<open>generate_rsa_keys\<close>,
  \<^verbatim>\<open>encrypt_message\<close>, \<^verbatim>\<open>decrypt_message\<close> and \<^verbatim>\<open>get_security_level\<close>. The
  remaining ones (\<^verbatim>\<open>display_security_info\<close>, \<^verbatim>\<open>test_rsa_implementation\<close>,
  \<^verbatim>\<open>main\<close>) print and time; console output and timing are not modelled. The
  theory covers the table lookup and the key generation; the cipher
  (\<^verbatim>\<open>PKCS1_OAEP\<close>) is library code and is not part of it.
\<close>

subsection \<open>Python values\<close>

text \<open>A Python \<^verbatim>\<open>int\<close> is unbounded: it is an \<^typ>\<open>int\<close>.\<close>

text \<open>The values stored in the dictionaries of the security table: integers and texts.\<close>

datatype pyval = PyInt int | PyStr string

subsection \<open>The security table: \<^verbatim>\<open>get_security_level\<close>\<close>

text \<open>
  \<^verbatim>\<open>security_info\<close> is a dictionary literal built inside the function; a dictionary is
  an association list in insertion order, read with \<^const>\<open>map_of\<close>.
  \<^verbatim>\<open>security_info.get(key_size, {})\<close> returns the entry of \<^verbatim>\<open>key_size\<close>, or the empty
  dictionary when there is none.
\<close>

definition security_info :: "(int \<times> (string \<times> pyval) list) list" where
  "security_info =
    [(2048,
       [(''security_bits'', PyInt 112),
        (''level'', PyStr ''Standard Security''),
        (''nist_approval'', PyStr ''Through 2030''),
        (''use_case'', PyStr ''Routine operations and standard transactions'')]),
     (3072,
       [(''security_bits'', PyInt 128),
        (''level'', PyStr ''High Security''),
        (''nist_approval'', PyStr ''Beyond 2030''),
        (''use_case'', PyStr ''High-value transactions and long-term protection'')]),
     (4096,
       [(''security_bits'', PyInt 152),
        (''level'', PyStr ''Maximum Security''),
        (''nist_approval'', PyStr ''Maximum recommended''),
        (''use_case'', PyStr ''Critical infrastructure and executive communications'')])]"

definition get_security_level :: "int \<Rightarrow> (string \<times> pyval) list" where
  "get_security_level key_size =
    (case map_of security_info key_size of None \<Rightarrow> [] | Some info \<Rightarrow> info)"

subsection \<open>The lookup on the object store\<close>









section \<open>Key generation\<close>

subsection \<open>Exceptions\<close>

text \<open>
  The module defines no exception class and has no \<^verbatim>\<open>try\<close>: an exception the library
  raises reaches the caller unchanged. An exception is modelled by its class.
\<close>

datatype py_error = ValueError | ZeroDivisionError

subsection \<open>Numbers\<close>

fun bit_length :: "nat \<Rightarrow> nat" where
  "bit_length n = (if n = 0 then 0 else Suc (bit_length (n div 2)))"

declare bit_length.simps [simp del]

text \<open>\<^verbatim>\<open>size_in_bits\<close>; only applied to numbers that are not negative.\<close>

definition size_in_bits :: "int \<Rightarrow> nat" where
  "size_in_bits x = bit_length (nat x)"

text \<open>\<^verbatim>\<open>Integer.sqrt\<close>: the integer square root, by halving.\<close>

fun isqrt :: "nat \<Rightarrow> nat" where
  "isqrt n =
    (if n < 2 then n
     else let r = 2 * isqrt (n div 4) in if (r + 1) * (r + 1) \<le> n then r + 1 else r)"

declare isqrt.simps [simp del]

text \<open>
  \<^verbatim>\<open>Integer.inverse\<close>: the inverse of \<open>x\<close> modulo \<open>m\<close>, in \<open>0..<m\<close>, from the
  coefficients of Bezout (\<^const>\<open>bezw\<close> is the extended Euclidean algorithm).
\<close>

definition inverse_mod :: "int \<Rightarrow> int \<Rightarrow> py_error + int" where
  "inverse_mod x m =
    (if m = 0 then Inl ZeroDivisionError
     else if m < 0 then Inl ValueError
     else if gcd x m \<noteq> 1 then Inl ValueError
     else Inr (fst (bezw (nat (x mod m)) (nat m)) mod m))"

text \<open>What it is for a number to be prime, by the divisors it does not have.\<close>

definition prime_nat :: "nat \<Rightarrow> bool" where
  "prime_nat p = (1 < p \<and> (\<forall>m \<in> {2..<p}. \<not> m dvd p))"

subsection \<open>RSA keys and their exported form\<close>

text \<open>
  An \<^verbatim>\<open>RsaKey\<close> object: a public key holds the modulus \<open>n\<close> and the exponent \<open>e\<close>, a
  private key also \<open>d\<close>, the factors \<open>p\<close> and \<open>q\<close> and \<open>u\<close>, the inverse of \<open>p\<close>
  modulo \<open>q\<close>.
\<close>

datatype RsaKey =
    PublicKey (rsa_n: int) (rsa_e: int)
  | PrivateKey (rsa_n: int) (rsa_e: int) (rsa_d: int) (rsa_p: int) (rsa_q: int) (rsa_u: int)

definition publickey :: "RsaKey \<Rightarrow> RsaKey" where
  "publickey key = PublicKey (rsa_n key) (rsa_e key)"

text \<open>
  \<^verbatim>\<open>export_key\<close> writes PEM text around an ASN.1 structure. The text format is not
  modelled: an exported key is the numbers that determine the structure.
\<close>

datatype pem =
    PrivatePEM int int int int int
  | PublicPEM int int

fun export_key :: "RsaKey \<Rightarrow> pem" where
  "export_key (PublicKey n e) = PublicPEM n e"
| "export_key (PrivateKey n e d p q u) = PrivatePEM n e d p q"

subsection \<open>\<^verbatim>\<open>RSA.generate\<close>\<close>

text \<open>
  \<^verbatim>\<open>RSA.generate\<close> is PyCryptodome's; the repository calls it and does not contain it.
  The definition follows the library's algorithm: the size check, the loop that draws
  two primes and computes the private exponent, and the construction of the key.

  The two calls of \<^verbatim>\<open>generate_probable_prime\<close> in each round of the loop draw from the
  random source; the pairs \<open>(p, q)\<close> they return, round by round, are the argument
  \<open>draws\<close>. The loop ends with \<open>None\<close> when it wants a pair and \<open>draws\<close> has no more.
  The public exponent is the default of the library, 65537, which the module never
  overrides.
\<close>

definition default_e :: int where
  "default_e = 65537"

text \<open>
  The filters \<^verbatim>\<open>filter_p\<close> and \<^verbatim>\<open>filter_q\<close> that \<^verbatim>\<open>RSA.generate\<close> hands to the prime
  generator; \<open>size_p\<close> and \<open>size_q\<close> are the bit sizes it asks for.
\<close>

definition size_q :: "nat \<Rightarrow> nat" where
  "size_q bits = bits div 2"

definition size_p :: "nat \<Rightarrow> nat" where
  "size_p bits = bits - size_q bits"

definition min_q :: "nat \<Rightarrow> int" where
  "min_q bits = int (isqrt (2 ^ (2 * size_q bits - 1)))"

definition min_p :: "nat \<Rightarrow> int" where
  "min_p bits =
    (if size_q bits \<noteq> size_p bits then int (isqrt (2 ^ (2 * size_p bits - 1)))
     else min_q bits)"

definition filter_p :: "nat \<Rightarrow> int \<Rightarrow> int \<Rightarrow> bool" where
  "filter_p bits e candidate = (min_p bits < candidate \<and> gcd (candidate - 1) e = 1)"

definition filter_q :: "nat \<Rightarrow> int \<Rightarrow> int \<Rightarrow> int \<Rightarrow> bool" where
  "filter_q bits e p candidate =
    (min_q bits < candidate \<and> gcd (candidate - 1) e = 1 \<and>
     2 ^ (bits div 2 - 100) < \<bar>candidate - p\<bar>)"

text \<open>
  What \<^verbatim>\<open>generate_probable_prime(exact_bits, prime_filter)\<close> returns is a probable prime
  of exactly \<open>exact_bits\<close> bits that passes the filter. Of the primality of \<open>p\<close> and
  \<open>q\<close> the generation of the key needs one consequence only, that they have no common
  factor: two primes that differ are coprime (\<open>distinct_primes_coprime\<close> below), and
  \<^verbatim>\<open>filter_q\<close> keeps \<open>q\<close> away from \<open>p\<close>. \<open>draw_ok\<close> states this of one pair of
  draws, so it holds of every pair of primes the generator returns.
\<close>

definition draw_ok :: "nat \<Rightarrow> int \<times> int \<Rightarrow> bool" where
  "draw_ok bits pq =
    (0 < fst pq \<and> size_in_bits (fst pq) = size_p bits \<and> filter_p bits default_e (fst pq) \<and>
     0 < snd pq \<and> size_in_bits (snd pq) = size_q bits \<and>
     filter_q bits default_e (fst pq) (snd pq) \<and>
     coprime (fst pq) (snd pq))"

text \<open>
  The loop \<^verbatim>\<open>while n.size_in_bits() != bits and d < (1 << (bits // 2))\<close>; its state is
  \<open>(n, d, p, q)\<close>. It starts from \<open>n = d = 1\<close>, where \<open>p\<close> and \<open>q\<close> are not yet bound.
\<close>

fun generate_loop ::
    "nat \<Rightarrow> int \<Rightarrow> int \<times> int \<times> int \<times> int \<Rightarrow> (int \<times> int) list \<Rightarrow>
     (py_error + int \<times> int \<times> int \<times> int) option" where
  "generate_loop bits e (n, d, p, q) draws =
    (if size_in_bits n \<noteq> bits \<and> d < 2 ^ (bits div 2) then
       (case draws of
          [] \<Rightarrow> None
        | (p', q') # rest \<Rightarrow>
           (case inverse_mod e (lcm (p' - 1) (q' - 1)) of
              Inl err \<Rightarrow> Some (Inl err)
            | Inr d' \<Rightarrow> generate_loop bits e (p' * q', d', p', q') rest))
     else Some (Inr (n, d, p, q)))"

declare generate_loop.simps [simp del]

definition RSA_generate :: "int \<Rightarrow> (int \<times> int) list \<Rightarrow> (py_error + RsaKey) option" where
  "RSA_generate bits draws =
    (if bits < 1024 then Some (Inl ValueError)
     else case generate_loop (nat bits) default_e (1, 1, 0, 0) draws of
       None \<Rightarrow> None
     | Some (Inl err) \<Rightarrow> Some (Inl err)
     | Some (Inr (n, d, p0, q0)) \<Rightarrow>
        (let p = (if q0 < p0 then q0 else p0); q = (if q0 < p0 then p0 else q0) in
         case inverse_mod p q of
           Inl err \<Rightarrow> Some (Inl err)
         | Inr u \<Rightarrow> Some (Inr (PrivateKey n default_e d p q u))))"

subsection \<open>\<^verbatim>\<open>generate_rsa_keys\<close>\<close>

text \<open>
  \<^verbatim>\<open>generate_rsa_keys(key_size=2048)\<close>: \<open>None\<close> as the argument is the call without a
  size. The function passes the size to \<^verbatim>\<open>RSA.generate\<close> as it is, with no check of
  its own, and returns the two exported keys and the key object.
\<close>

definition generate_rsa_keys ::
    "int option \<Rightarrow> (int \<times> int) list \<Rightarrow> (py_error + pem \<times> pem \<times> RsaKey) option" where
  "generate_rsa_keys key_size_arg draws =
    (let key_size = (case key_size_arg of None \<Rightarrow> 2048 | Some s \<Rightarrow> s) in
     case RSA_generate key_size draws of
       None \<Rightarrow> None
     | Some (Inl err) \<Rightarrow> Some (Inl err)
     | Some (Inr key) \<Rightarrow> Some (Inr (export_key key, export_key (publickey key), key)))"

text \<open>Whether a call returned a key pair, and the modulus of the key it returned.\<close>

definition returns_key :: "(py_error + pem \<times> pem \<times> RsaKey) option \<Rightarrow> bool" where
  "returns_key r = (case r of Some (Inr triple) \<Rightarrow> True | _ \<Rightarrow> False)"

definition raises :: "(py_error + pem \<times> pem \<times> RsaKey) option \<Rightarrow> py_error \<Rightarrow> bool" where
  "raises r err = (r = Some (Inl err))"

definition modulus_bits :: "(py_error + pem \<times> pem \<times> RsaKey) option \<Rightarrow> nat option" where
  "modulus_bits r =
    (case r of Some (Inr (private_key, public_key, key)) \<Rightarrow> Some (size_in_bits (rsa_n key))
     | _ \<Rightarrow> None)"

subsection \<open>Two pairs of primes\<close>

text \<open>
  Draws for the examples below: two numbers of 512 bits and two of 1024 bits, each pair
  of the size and with the properties the prime generator promises for a key of 1024 and
  of 2048 bits (\<open>draw_ok_1024\<close> and \<open>draw_ok_2048\<close> below). They are primes; the
  theorems use what \<open>draw_ok\<close> states and not their primality.
\<close>

definition p512 :: int where
  "p512 =
    12026910836305678075269479958873271349652381645667441742473819288906638767933689919460319400614608098567829613487675972984830399473256046630349781339618073"

definition q512 :: int where
  "q512 =
    10316276002461790686738253626287326179889673613976115066812257663659913721762533096022428317548998404810026903920334750010528730909957714492727083171820037"

definition p1024 :: int where
  "p1024 =
    127336946983511848173775794262095840023659685010026725124003954024212163554207961484047800676753227241112189234228144902905736892248738864811747339312612661529956807021370876693274564654806177369335565182479780634462835236315373850622023375728858766393003941597994857158370954742449455240678560757049597818267"

definition q1024 :: int where
  "q1024 =
    176057593954979817825724642442279486377141201384524615667453667442466419301151971678348597258068582750038712680410017090670212204646236176803776390177535841259565895758058640863987304540393708606257571847372413123058362706824341842233269260383538331094317576835322660515982851417237002895332890857962732668063"

section \<open>Properties\<close>

subsection \<open>The security table\<close>

lemma get_security_level_unlisted:
  "key_size \<noteq> 2048 \<Longrightarrow> key_size \<noteq> 3072 \<Longrightarrow> key_size \<noteq> 4096 \<Longrightarrow>
   get_security_level key_size = []"
  by (simp add: get_security_level_def security_info_def)

text \<open>
  Claim C7. Looking up 2048 gives a record whose \<^verbatim>\<open>security_bits\<close> field is 112; looking
  up any size that is not a key of the table (anything but 2048, 3072 and 4096) gives the
  empty dictionary, the function's "not found" result, and no tier.
\<close>

theorem policy_lookup:
  "map_of (get_security_level 2048) ''security_bits'' = Some (PyInt 112) \<and>
   (\<forall>key_size. key_size \<notin> {2048, 3072, 4096} \<longrightarrow> get_security_level key_size = [])"
  by (simp add: get_security_level_unlisted) (simp add: get_security_level_def security_info_def)

theorem policy_lookup_witness:
  "map_of (get_security_level 2048) ''security_bits'' = Some (PyInt 112) \<and>
   get_security_level 1024 = []"
  using policy_lookup by simp

subsection \<open>The lookup reads and never writes\<close>






subsection \<open>Key generation\<close>

lemma bit_length_bounds: "0 < n \<Longrightarrow> 2 ^ (bit_length n - 1) \<le> n \<and> n < 2 ^ bit_length n"
proof (induction n rule: bit_length.induct)
  case (1 n)
  show ?case
  proof (cases "n div 2 = 0")
    case True
    with "1.prems" have "n = 1" by (cases n) auto
    moreover have "bit_length (Suc 0) = Suc 0"
      by (simp add: bit_length.simps [of "Suc 0"] bit_length.simps [of 0])
    ultimately show ?thesis by simp
  next
    case False
    then have pos: "0 < n div 2" by simp
    from "1.IH" [OF _ pos] "1.prems"
    have IH: "2 ^ (bit_length (n div 2) - 1) \<le> n div 2" "n div 2 < 2 ^ bit_length (n div 2)"
      by auto
    have bl: "bit_length n = Suc (bit_length (n div 2))"
      using "1.prems" by (simp add: bit_length.simps [of n])
    have pos_bl: "0 < bit_length (n div 2)"
      using pos by (simp add: bit_length.simps [of "n div 2"])
    have "2 * 2 ^ (bit_length (n div 2) - 1) \<le> n" using IH(1) by linarith
    moreover have "2 * 2 ^ (bit_length (n div 2) - 1) = (2::nat) ^ bit_length (n div 2)"
      using pos_bl by (cases "bit_length (n div 2)") auto
    moreover have "n < 2 * 2 ^ bit_length (n div 2)" using IH(2) by linarith
    ultimately show ?thesis by (simp add: bl)
  qed
qed

lemma bit_length_eqI:
  assumes "2 ^ (b - 1) \<le> n" and "n < 2 ^ b" and "0 < b"
  shows "bit_length n = b"
proof -
  have n0: "0 < n" using assms(1) by (cases n) auto
  from bit_length_bounds [OF n0]
  have 1: "2 ^ (bit_length n - 1) \<le> n" and 2: "n < 2 ^ bit_length n" by auto
  have "(2::nat) ^ (b - 1) < 2 ^ bit_length n" using assms(1) 2 by linarith
  then have "b - 1 < bit_length n" by simp
  moreover have "(2::nat) ^ (bit_length n - 1) < 2 ^ b" using 1 assms(2) by linarith
  then have "bit_length n - 1 < b" by simp
  ultimately show ?thesis using assms(3) by linarith
qed

lemma isqrt_bounds: "isqrt n * isqrt n \<le> n \<and> n < (isqrt n + 1) * (isqrt n + 1)"
proof (induction n rule: isqrt.induct)
  case (1 n)
  show ?case
  proof (cases "n < 2")
    case True
    then have "n = 0 \<or> n = Suc 0" by auto
    moreover have "isqrt 0 = 0" "isqrt (Suc 0) = Suc 0"
      by (simp_all add: isqrt.simps [of 0] isqrt.simps [of "Suc 0"])
    ultimately show ?thesis by auto
  next
    case False
    define r where "r = isqrt (n div 4)"
    from "1.IH" [OF False] have IH: "r * r \<le> n div 4" "n div 4 < (r + 1) * (r + 1)"
      by (auto simp: r_def)
    have lo: "(2 * r) * (2 * r) \<le> n" using IH(1) by (simp add: algebra_simps)
    have "n div 4 + 1 \<le> (r + 1) * (r + 1)" using IH(2) by simp
    then have "4 * (n div 4) + 4 \<le> 4 * ((r + 1) * (r + 1))" by linarith
    then have hi: "n < (2 * r + 2) * (2 * r + 2)" by (simp add: algebra_simps)
    have eq: "isqrt n = (if (2 * r + 1) * (2 * r + 1) \<le> n then 2 * r + 1 else 2 * r)"
      using False by (simp add: isqrt.simps [of n] r_def Let_def)
    show ?thesis
    proof (cases "(2 * r + 1) * (2 * r + 1) \<le> n")
      case True
      with hi show ?thesis by (simp add: eq)
    next
      case False
      with lo show ?thesis by (simp add: eq)
    qed
  qed
qed

lemma isqrt_less: "N < x * x \<Longrightarrow> isqrt N < x"
proof (rule ccontr)
  assume "N < x * x" and "\<not> isqrt N < x"
  then have "x \<le> isqrt N" by simp
  then have "x * x \<le> isqrt N * isqrt N" by (simp add: mult_le_mono)
  with isqrt_bounds [of N] \<open>N < x * x\<close> show False by linarith
qed

lemma square_above: "isqrt N < x \<Longrightarrow> N < x * x"
proof -
  assume "isqrt N < x"
  then have "isqrt N + 1 \<le> x" by simp
  then have "(isqrt N + 1) * (isqrt N + 1) \<le> x * x" by (simp only: mult_le_mono)
  with isqrt_bounds [of N] show ?thesis by linarith
qed

lemma size_p_q: "size_p bits + size_q bits = bits"
  by (simp add: size_p_def size_q_def)

lemma min_p_eq: "min_p bits = int (isqrt (2 ^ (2 * size_p bits - 1)))"
  by (simp add: min_p_def min_q_def)

lemma square_less_imp_less:
  fixes a b :: nat
  assumes "a * a < b * b"
  shows "a < b"
proof (rule ccontr)
  assume "\<not> a < b"
  then have "b \<le> a" by simp
  then have "b * b \<le> a * a" by (simp add: mult_le_mono)
  with assms show False by simp
qed

lemma product_bits_nat:
  fixes P Q :: nat
  assumes sp: "0 < sp" and sq: "0 < sq"
    and P: "bit_length P = sp" "isqrt (2 ^ (2 * sp - 1)) < P"
    and Q: "bit_length Q = sq" "isqrt (2 ^ (2 * sq - 1)) < Q"
  shows "bit_length (P * Q) = sp + sq"
proof (rule bit_length_eqI)
  have P0: "0 < P" and Q0: "0 < Q" using P(2) Q(2) by auto
  from bit_length_bounds [OF P0] P(1) have Pu: "P < 2 ^ sp" by simp
  from bit_length_bounds [OF Q0] Q(1) have Qu: "Q < 2 ^ sq" by simp
  have "P * Q < 2 ^ sp * 2 ^ sq" using Pu Qu by (simp add: mult_strict_mono)
  then show "P * Q < 2 ^ (sp + sq)" by (simp add: power_add)
  have PP: "2 ^ (2 * sp - 1) < P * P" by (rule square_above [OF P(2)])
  have QQ: "2 ^ (2 * sq - 1) < Q * Q" by (rule square_above [OF Q(2)])
  have "(2::nat) ^ (2 * sp - 1) * 2 ^ (2 * sq - 1) < (P * P) * (Q * Q)"
    by (rule mult_strict_mono') (use PP QQ in simp_all)
  moreover have "(2::nat) ^ (2 * sp - 1) * 2 ^ (2 * sq - 1) =
      2 ^ (sp + sq - 1) * 2 ^ (sp + sq - 1)"
  proof -
    have "(2 * sp - 1) + (2 * sq - 1) = (sp + sq - 1) + (sp + sq - 1)" using sp sq by simp
    then show ?thesis by (simp only: flip: power_add)
  qed
  moreover have "(P * P) * (Q * Q) = (P * Q) * (P * Q)" by (simp add: algebra_simps)
  ultimately have "(2::nat) ^ (sp + sq - 1) * 2 ^ (sp + sq - 1) < (P * Q) * (P * Q)" by simp
  then have "(2::nat) ^ (sp + sq - 1) < P * Q" by (rule square_less_imp_less)
  then show "2 ^ (sp + sq - 1) \<le> P * Q" by simp
  show "0 < sp + sq" using sp by simp
qed

lemma draw_ok_product_bits:
  assumes ok: "draw_ok bits (p, q)" and bits: "2 \<le> bits"
  shows "size_in_bits (p * q) = bits"
proof -
  from ok have p: "0 < p" "bit_length (nat p) = size_p bits" "min_p bits < p"
    and q: "0 < q" "bit_length (nat q) = size_q bits" "min_q bits < q"
    by (simp_all add: draw_ok_def filter_p_def filter_q_def size_in_bits_def)
  have sp: "0 < size_p bits" and sq: "0 < size_q bits"
    using bits by (simp_all add: size_p_def size_q_def)
  have "isqrt (2 ^ (2 * size_p bits - 1)) < nat p"
    using p(1,3) by (simp add: min_p_eq)
  moreover have "isqrt (2 ^ (2 * size_q bits - 1)) < nat q"
    using q(1,3) by (simp add: min_q_def)
  ultimately have "bit_length (nat p * nat q) = size_p bits + size_q bits"
    using product_bits_nat [OF sp sq p(2) _ q(2)] by blast
  moreover have "nat (p * q) = nat p * nat q" using p(1) by (simp add: nat_mult_distrib)
  ultimately show ?thesis by (simp add: size_in_bits_def size_p_q)
qed

lemma draw_ok_at_least_2:
  assumes ok: "draw_ok bits (p, q)" and bits: "4 \<le> bits"
  shows "2 \<le> p" and "2 \<le> q"
proof -
  from ok have p: "0 < p" "bit_length (nat p) = size_p bits"
    and q: "0 < q" "bit_length (nat q) = size_q bits"
    by (simp_all add: draw_ok_def size_in_bits_def)
  have sp: "2 \<le> size_p bits" and sq: "2 \<le> size_q bits"
    using bits by (simp_all add: size_p_def size_q_def)
  have "2 ^ (size_p bits - 1) \<le> nat p"
    using bit_length_bounds [of "nat p"] p by simp
  moreover have "(2::nat) \<le> 2 ^ (size_p bits - 1)"
    using power_increasing [of 1 "size_p bits - 1" "2::nat"] sp by simp
  ultimately have "2 \<le> nat p" by linarith
  then show "2 \<le> p" by simp
  have "2 ^ (size_q bits - 1) \<le> nat q"
    using bit_length_bounds [of "nat q"] q by simp
  moreover have "(2::nat) \<le> 2 ^ (size_q bits - 1)"
    using power_increasing [of 1 "size_q bits - 1" "2::nat"] sq by simp
  ultimately have "2 \<le> nat q" by linarith
  then show "2 \<le> q" by simp
qed

lemma inverse_mod_ok:
  assumes "0 < m" and "coprime x m"
  shows "\<exists>d. inverse_mod x m = Inr d"
  using assms by (simp add: inverse_mod_def coprime_iff_gcd_eq_1)

lemma coprime_lcm:
  fixes e a b :: int
  assumes "coprime e a" and "coprime e b"
  shows "coprime e (lcm a b)"
proof -
  have "coprime e (a * b)" using assms by simp
  moreover have "lcm a b dvd a * b" by simp
  ultimately show ?thesis by (meson coprime_divisors dvd_refl)
qed

lemma generate_loop_first:
  assumes bits: "4 \<le> bits" and ok: "draw_ok bits (p, q)"
  shows "\<exists>d. generate_loop bits default_e (1, 1, 0, 0) ((p, q) # rest) = Some (Inr (p * q, d, p, q))"
proof -
  from draw_ok_at_least_2 [OF ok bits] have p2: "2 \<le> p" and q2: "2 \<le> q" .
  from ok have "coprime default_e (p - 1)" "coprime default_e (q - 1)"
    by (simp_all add: draw_ok_def filter_p_def filter_q_def coprime_iff_gcd_eq_1 gcd.commute)
  then have "coprime default_e (lcm (p - 1) (q - 1))" by (rule coprime_lcm)
  moreover have "0 < lcm (p - 1) (q - 1)"
    using p2 q2 by (metis lcm_pos_int less_numeral_extra(3) diff_gt_0_iff_gt less_le_trans one_less_numeral_iff semiring_norm(76) diff_0_right order_less_irrefl lcm_0_iff_int abs_of_nonneg)
  ultimately obtain d where d: "inverse_mod default_e (lcm (p - 1) (q - 1)) = Inr d"
    using inverse_mod_ok by blast
  have one: "size_in_bits 1 \<noteq> bits"
    using bits by (simp add: size_in_bits_def bit_length.simps [of "Suc 0"] bit_length.simps [of 0])
  have pow: "(1::int) < 2 ^ (bits div 2)"
    using bits by (simp add: one_less_power)
  have fin: "size_in_bits (p * q) = bits"
    using draw_ok_product_bits [OF ok] bits by simp
  have "generate_loop bits default_e (1, 1, 0, 0) ((p, q) # rest) =
        generate_loop bits default_e (p * q, d, p, q) rest"
    using one pow d by (simp add: generate_loop.simps [of bits default_e 1 1 0 0])
  also have "\<dots> = Some (Inr (p * q, d, p, q))"
    using fin by (simp add: generate_loop.simps [of bits default_e "p * q"])
  finally show ?thesis by blast
qed

lemma RSA_generate_ok:
  assumes bits: "1024 \<le> bits" and ok: "draw_ok (nat bits) (p, q)"
  shows "\<exists>key. RSA_generate bits ((p, q) # rest) = Some (Inr key) \<and>
           rsa_n key = p * q \<and> rsa_e key = default_e \<and>
           size_in_bits (rsa_n key) = nat bits"
proof -
  have b4: "4 \<le> nat bits" using bits by simp
  from generate_loop_first [OF b4 ok] obtain d where
    loop: "generate_loop (nat bits) default_e (1, 1, 0, 0) ((p, q) # rest) =
            Some (Inr (p * q, d, p, q))" by blast
  from draw_ok_at_least_2 [OF ok b4] have p2: "2 \<le> p" and q2: "2 \<le> q" .
  from ok have cop: "coprime p q" by (simp add: draw_ok_def)
  define p' where "p' = (if q < p then q else p)"
  define q' where "q' = (if q < p then p else q)"
  have "0 < q'" and "coprime p' q'"
    using p2 q2 cop by (auto simp: p'_def q'_def coprime_commute)
  then obtain u where u: "inverse_mod p' q' = Inr u" using inverse_mod_ok by blast
  have "RSA_generate bits ((p, q) # rest) = Some (Inr (PrivateKey (p * q) default_e d p' q' u))"
    using bits loop u by (simp add: RSA_generate_def Let_def p'_def q'_def)
  moreover have "size_in_bits (p * q) = nat bits"
    using draw_ok_product_bits [OF ok] bits by simp
  ultimately show ?thesis by simp
qed

lemma generate_rsa_keys_ok:
  assumes bits: "1024 \<le> bits" and ok: "draw_ok (nat bits) pq"
  shows "returns_key (generate_rsa_keys (Some bits) (pq # rest)) \<and>
         modulus_bits (generate_rsa_keys (Some bits) (pq # rest)) = Some (nat bits)"
proof -
  obtain p q where pq: "pq = (p, q)" by (cases pq)
  from RSA_generate_ok [OF bits ok [unfolded pq], of rest] obtain key where
    "RSA_generate bits ((p, q) # rest) = Some (Inr key)" "size_in_bits (rsa_n key) = nat bits"
    by blast
  then show ?thesis
    by (simp add: generate_rsa_keys_def returns_key_def modulus_bits_def pq)
qed

lemma generate_rsa_keys_small:
  "bits < 1024 \<Longrightarrow> raises (generate_rsa_keys (Some bits) draws) ValueError"
  by (simp add: generate_rsa_keys_def RSA_generate_def raises_def)

lemma prime_nat_dvd:
  assumes "prime_nat p" and "m dvd p"
  shows "m = 1 \<or> m = p"
proof (rule ccontr)
  assume neg: "\<not> (m = 1 \<or> m = p)"
  from assms have "0 < p" by (simp add: prime_nat_def)
  with \<open>m dvd p\<close> have "m \<le> p" and "m \<noteq> 0" by (auto dest: dvd_imp_le)
  with neg have "m \<in> {2..<p}" by auto
  with assms show False by (auto simp: prime_nat_def)
qed

lemma distinct_primes_coprime:
  fixes p q :: int
  assumes "0 < p" and "0 < q" and "prime_nat (nat p)" and "prime_nat (nat q)" and "p \<noteq> q"
  shows "coprime p q"
proof -
  define g where "g = gcd (nat p) (nat q)"
  have "g dvd nat p" and "g dvd nat q" by (simp_all add: g_def)
  then have "g = 1 \<or> g = nat p" and "g = 1 \<or> g = nat q"
    using assms(3,4) by (auto dest: prime_nat_dvd)
  moreover have "nat p \<noteq> nat q" using assms(1,2,5) by simp
  ultimately have "g = 1" by auto
  then have "coprime (nat p) (nat q)" by (simp add: g_def coprime_iff_gcd_eq_1)
  then have "coprime (int (nat p)) (int (nat q))" by (simp only: coprime_int_iff)
  moreover have "int (nat p) = p" "int (nat q) = q" using assms(1,2) by simp_all
  ultimately show ?thesis by simp
qed

lemma bezout_coprime:
  fixes x y :: int
  assumes "a * x + b * y = 1"
  shows "coprime x y"
proof (rule coprimeI)
  fix c assume "c dvd x" "c dvd y"
  then have "c dvd a * x + b * y" by simp
  then show "is_unit c" by (simp only: assms)
qed

lemma nat_bounds_of_int:
  fixes p :: int
  assumes "2 ^ (sp - 1) \<le> p" and "p < 2 ^ sp" and "2 ^ (2 * sp - 1) < p * p" and "0 < sp"
  shows "0 < p" and "bit_length (nat p) = sp" and "int (isqrt (2 ^ (2 * sp - 1))) < p"
proof -
  have "(0::int) < 2 ^ (sp - 1)" by simp
  with assms(1) show p0: "0 < p" by linarith
  define P where "P = nat p"
  have pP: "p = int P" using p0 by (simp add: P_def)
  have "int (2 ^ (sp - 1)) \<le> int P" using assms(1) by (simp add: pP)
  then have lo: "2 ^ (sp - 1) \<le> P" by (simp only: of_nat_le_iff)
  have "int P < int (2 ^ sp)" using assms(2) by (simp add: pP)
  then have hi: "P < 2 ^ sp" by (simp only: of_nat_less_iff)
  from lo hi assms(4) show "bit_length (nat p) = sp"
    unfolding P_def [symmetric] by (rule bit_length_eqI)
  have "int (2 ^ (2 * sp - 1)) < int (P * P)" using assms(3) by (simp add: pP)
  then have "2 ^ (2 * sp - 1) < P * P" by (simp only: of_nat_less_iff)
  then have "isqrt (2 ^ (2 * sp - 1)) < P" by (rule isqrt_less)
  then show "int (isqrt (2 ^ (2 * sp - 1))) < p" by (simp add: pP)
qed

lemma draw_okI:
  assumes "0 < sp" "0 < sq" "size_p bits = sp" "size_q bits = sq"
    and "2 ^ (sp - 1) \<le> p" "p < 2 ^ sp" "2 ^ (2 * sp - 1) < p * p"
    and "2 ^ (sq - 1) \<le> q" "q < 2 ^ sq" "2 ^ (2 * sq - 1) < q * q"
    and "a * (p - 1) + b * default_e = 1" "c * (q - 1) + d * default_e = 1"
    and "2 ^ (bits div 2 - 100) < \<bar>q - p\<bar>" "g * p + h * q = 1"
  shows "draw_ok bits (p, q)"
proof -
  note P = nat_bounds_of_int [OF assms(5,6,7,1)]
  note Q = nat_bounds_of_int [OF assms(8,9,10,2)]
  note C = bezout_coprime [OF assms(11)] bezout_coprime [OF assms(12)]
    bezout_coprime [OF assms(14)]
  show ?thesis
    using P Q C assms(3,4,13)
    by (simp add: draw_ok_def filter_p_def filter_q_def size_in_bits_def min_p_eq min_q_def
        coprime_iff_gcd_eq_1)
qed

lemma draw_ok_1024: "draw_ok 1024 (p512, q512)"
proof (rule draw_okI [where sp = 512 and sq = 512
      and a = "-14873"
      and b = "2729393241502881578550787729501230828133418865923247341743032398246920646283439433787529646540748985306000119648476505580105627834135483490748619830998361"
      and c = "-21332"
      and d = "3357901638532659702603116199337187269319720425612073891164366395794639356586941056263644061674401238558485953193288995334308846724311731778367245040530769"
      and g = "1802589913072670860775269356429817896360284130707194634659438681694942164103171765827831768692229358485894246256408620264528600232725097912836863295492568"
      and h = "-2101493615891585106312197009859738449134306831855644594099758393707892134877449614968665875715040940707577936060992917306775306409305001429764900740859499"])
qed (simp_all add: size_p_def size_q_def default_e_def p512_def q512_def)

lemma draw_ok_2048: "draw_ok 2048 (p1024, q1024)"
proof (rule draw_okI [where sp = 1024 and sq = 1024
      and a = "-22551"
      and b = "43816096120133293989148388489014194857462953090027201096653999530036597651875181034022948152363733883368493819080502551313414905429014299409031756852445612862383935107480272827716171132803364601002278566765362056361618588189083963339445643622098876068917281642070616961081883522239004915277510774558272127191"
      and c = "-17201"
      and d = "46208503190863296251282322575791529138856002029620030121852854626819428390056228769081194156522844986548299385320242061379347851322457672417134713023845980217370233195513476074605881035129959896489563046014509027415458396327044326536986199366117503595729994341278744579938371106823530018197675445135068199999"
      and g = "81048871525328143887987691811097581981200853208742788319422038617558991278686877785405622446152328600601952754778290159146679656406392057291709169671140472650334134418072495149160627056220873955189363078291842735861140749885973530833664573043855958601081580853381758112582255284569615930308085812570811634065"
      and h = "-58620111888688317716783435937547065623559092745950761511843569446064225538502314109443106135363104269752625125183091193477532723315028561516751816195536679956217670534833837040492000893041642758363708977773344082152155615521158286360343087081576185295516246313181960259210755075436863367637402750386950547958"])
qed (simp_all add: size_p_def size_q_def default_e_def p1024_def q1024_def)

text \<open>
  Claim C9. Called without a size, \<^verbatim>\<open>generate_rsa_keys\<close> does what it does for the
  size 2048; and with a first pair of draws as the prime generator returns them for 2048
  bits, the call returns a key pair whose modulus has exactly 2048 bits.
\<close>

theorem default_key_size:
  "(\<forall>draws. generate_rsa_keys None draws = generate_rsa_keys (Some 2048) draws) \<and>
   (\<forall>pq rest. draw_ok 2048 pq \<longrightarrow>
      returns_key (generate_rsa_keys None (pq # rest)) \<and>
      modulus_bits (generate_rsa_keys None (pq # rest)) = Some 2048)"
proof (intro conjI allI impI)
  fix draws
  show eq: "generate_rsa_keys None draws = generate_rsa_keys (Some 2048) draws"
    by (simp add: generate_rsa_keys_def)
next
  fix pq rest
  assume ok: "draw_ok 2048 pq"
  have eq: "generate_rsa_keys None (pq # rest) = generate_rsa_keys (Some 2048) (pq # rest)"
    by (simp add: generate_rsa_keys_def)
  from generate_rsa_keys_ok [of 2048 pq rest] ok
  show "returns_key (generate_rsa_keys None (pq # rest))"
    and "modulus_bits (generate_rsa_keys None (pq # rest)) = Some 2048"
    by (simp_all add: eq)
qed

theorem default_key_size_witness:
  "returns_key (generate_rsa_keys None [(p1024, q1024)]) \<and>
   modulus_bits (generate_rsa_keys None [(p1024, q1024)]) = Some 2048"
  using default_key_size draw_ok_2048 by blast

text \<open>
  Claim C2, as the code has it. \<^verbatim>\<open>generate_rsa_keys\<close> makes no check of its own on
  the size: the size goes to \<^verbatim>\<open>RSA.generate\<close> as it is. A size below 1024 fails with
  the \<^verbatim>\<open>ValueError\<close> that \<^verbatim>\<open>RSA.generate\<close> raises; every size of at least 1024, the
  size 1024 and the sizes outside 2048, 3072 and 4096 included, returns a key pair, given
  a first pair of draws as the prime generator returns them for that size.
\<close>

theorem generate_size_check:
  "(\<forall>bits draws. bits < 1024 \<longrightarrow> raises (generate_rsa_keys (Some bits) draws) ValueError) \<and>
   (\<forall>bits pq rest. 1024 \<le> bits \<and> draw_ok (nat bits) pq \<longrightarrow>
      returns_key (generate_rsa_keys (Some bits) (pq # rest)))"
  using generate_rsa_keys_small generate_rsa_keys_ok by blast

theorem generate_size_check_witness:
  "raises (generate_rsa_keys (Some 512) []) ValueError \<and>
   returns_key (generate_rsa_keys (Some 1024) [(p512, q512), (p1024, q1024)])"
proof -
  have "draw_ok (nat 1024) (p512, q512)" using draw_ok_1024 by simp
  then show ?thesis using generate_size_check by simp
qed

text \<open>
  The claim as the spec states it fails at the size 1024, which the spec calls
  unsupported: with two primes of 512 bits as draws, \<^verbatim>\<open>generate_rsa_keys(1024)\<close>
  returns a key pair and raises nothing.
\<close>

theorem unsupported_size_counterexample:
  "returns_key (generate_rsa_keys (Some 1024) [(p512, q512)]) \<and>
   \<not> raises (generate_rsa_keys (Some 1024) [(p512, q512)]) ValueError \<and>
   \<not> raises (generate_rsa_keys (Some 1024) [(p512, q512)]) ZeroDivisionError"
proof -
  have "draw_ok (nat 1024) (p512, q512)" using draw_ok_1024 by simp
  from generate_rsa_keys_ok [OF _ this, of "[]"]
  have "returns_key (generate_rsa_keys (Some 1024) [(p512, q512)])" by simp
  then show ?thesis by (auto simp: returns_key_def raises_def split: option.splits sum.splits)
qed

end
